theory Spec2Isabelle
  imports Main
begin

section \<open>The missing-translation scanner \<open>frontend/find_missing.py\<close>\<close>

text \<open>
  The script reads a gettext catalog with \<^verbatim>\<open>readlines()\<close>, walks over the lines with
  \<^verbatim>\<open>enumerate\<close>, and for every line whose stripped text is \<^verbatim>\<open>msgstr ""\<close> and whose
  predecessor is not \<^verbatim>\<open>msgid ""\<close> prints a location line followed by the \<^verbatim>\<open>msgid\<close> lines
  found by walking backward. The whole script sits in one \<^verbatim>\<open>try\<close> block whose handler
  prints the exception.

  Modelling decisions:
  \<^item> a Python \<^verbatim>\<open>str\<close> is a list of Unicode code points (\<open>nat list\<close>), since the catalog is
    decoded from UTF-8 before any comparison and \<^verbatim>\<open>strip()\<close> knows non-ASCII white space;
  \<^item> standard output is the list of the strings that \<^verbatim>\<open>print\<close> has written, one element
    per call; a \<^verbatim>\<open>print\<close> inside the \<^verbatim>\<open>try\<close> block may raise, as the environment decides,
    and then writes nothing;
  \<^item> an exception is a value; a function that may raise returns the pending exception next
    to the output printed so far;
  \<^item> the \<^verbatim>\<open>while\<close> loop is a partial function into \<open>option\<close>: \<open>None\<close> would mean that the
    loop never returns, and that it always returns is a theorem, not an assumption;
  \<^item> the outcome of \<^verbatim>\<open>open(...)\<close> followed by \<^verbatim>\<open>f.readlines()\<close> is an input of the model:
    either the exception raised or the list of lines.
\<close>

subsection \<open>Strings\<close>

type_synonym pystr = "nat list"

definition lit :: "string \<Rightarrow> pystr" where
  "lit s = map of_char s"

text \<open>
  \<^verbatim>\<open>str.strip()\<close> without argument removes the characters for which CPython's
  \<^verbatim>\<open>Py_UNICODE_ISSPACE\<close> holds: U+0009..U+000D, U+001C..U+0020, U+0085, U+00A0, U+1680,
  U+2000..U+200A, U+2028, U+2029, U+202F, U+205F and U+3000.
\<close>

definition isspace :: "nat \<Rightarrow> bool" where
  "isspace c \<longleftrightarrow>
     (9 \<le> c \<and> c \<le> 13) \<or> (28 \<le> c \<and> c \<le> 32) \<or> c = 133 \<or> c = 160 \<or> c = 5760 \<or>
     (8192 \<le> c \<and> c \<le> 8202) \<or> c = 8232 \<or> c = 8233 \<or> c = 8239 \<or> c = 8287 \<or> c = 12288"

definition lstrip :: "pystr \<Rightarrow> pystr" where
  "lstrip s = dropWhile isspace s"

definition rstrip :: "pystr \<Rightarrow> pystr" where
  "rstrip s = rev (dropWhile isspace (rev s))"

definition strip :: "pystr \<Rightarrow> pystr" where
  "strip s = lstrip (rstrip s)"

definition startswith :: "pystr \<Rightarrow> pystr \<Rightarrow> bool" where
  "startswith s p \<longleftrightarrow> take (length p) s = p"

text \<open>\<^verbatim>\<open>str(n)\<close> for a non-negative integer: its decimal digits.\<close>

fun str_nat :: "nat \<Rightarrow> pystr" where
  "str_nat n = (if n < 10 then [48 + n] else str_nat (n div 10) @ [48 + n mod 10])"

declare str_nat.simps [simp del]

subsection \<open>The literals of the script\<close>

definition msgstr_empty :: pystr where
  "msgstr_empty = lit ''msgstr \"\"''"

definition msgid_empty :: pystr where
  "msgid_empty = lit ''msgid \"\"''"

definition msgid_prefix :: pystr where
  "msgid_prefix = lit ''msgid''"

text \<open>\<^verbatim>\<open>f"Line {i+1}: {line.strip()}"\<close>, given \<open>i\<close> and the stripped line.\<close>

definition report_line :: "nat \<Rightarrow> pystr \<Rightarrow> pystr" where
  "report_line i t = lit ''Line '' @ str_nat (i + 1) @ lit '': '' @ t"

text \<open>\<^verbatim>\<open>f"  Context: {lines[j].strip()}"\<close>, given the stripped line.\<close>

definition context_line :: "pystr \<Rightarrow> pystr" where
  "context_line t = lit ''  Context: '' @ t"

subsection \<open>Exceptions and list indexing\<close>

datatype exn_class =
  FileNotFoundError | PermissionError | OSError | UnicodeDecodeError | UnicodeEncodeError
  | IndexError | KeyboardInterrupt

text \<open>An exception: its class and \<^verbatim>\<open>str(e)\<close>, the description that \<^verbatim>\<open>print(e)\<close> writes.\<close>

datatype exn = Exn exn_class pystr

fun exn_cls :: "exn \<Rightarrow> exn_class" where
  "exn_cls (Exn c d) = c"

fun exn_str :: "exn \<Rightarrow> pystr" where
  "exn_str (Exn c d) = d"

text \<open>
  \<^verbatim>\<open>except Exception\<close> catches the subclasses of \<^verbatim>\<open>Exception\<close>; \<^verbatim>\<open>KeyboardInterrupt\<close>
  derives from \<^verbatim>\<open>BaseException\<close> only.
\<close>

fun is_Exception :: "exn_class \<Rightarrow> bool" where
  "is_Exception KeyboardInterrupt = False"
| "is_Exception c = True"


text \<open>
  \<^verbatim>\<open>xs[i]\<close> in Python: a negative index counts from the end, and an index outside
  \<open>-len \<le> i < len\<close> raises \<^verbatim>\<open>IndexError\<close>.
\<close>

definition getitem :: "'a list \<Rightarrow> int \<Rightarrow> exn + 'a" where
  "getitem xs i =
     (let n = int (length xs); k = (if i < 0 then i + n else i)
      in if 0 \<le> k \<and> k < n then Inr (xs ! nat k)
         else Inl (Exn IndexError (lit ''list index out of range'')))"

subsection \<open>Printing\<close>

text \<open>
  \<^verbatim>\<open>print(s)\<close> encodes \<open>s\<close> for standard output and writes it. It raises
  \<^verbatim>\<open>UnicodeEncodeError\<close> when the encoding of the stream has no code for a character of \<open>s\<close>,
  and \<^verbatim>\<open>OSError\<close> when the stream cannot be written. CPython describes the first as
  \<^verbatim>\<open>'<codec>' codec can't encode <detail>\<close> and the second as \<^verbatim>\<open>[<tag>] <message>\<close>, the tag
  being \<^verbatim>\<open>Errno <n>\<close> or \<^verbatim>\<open>WinError <n>\<close>.
\<close>

datatype print_error =
  EncodeError pystr pystr
  | StreamError pystr pystr

fun raised :: "print_error \<Rightarrow> exn" where
  "raised (EncodeError codec detail) =
     Exn UnicodeEncodeError ([39] @ codec @ [39] @ lit '' codec can't encode '' @ detail)"
| "raised (StreamError tag message) =
     Exn OSError (lit ''['' @ tag @ lit ''] '' @ message)"

text \<open>
  The standard output of a run, as the environment provides it: given the strings the
  run has printed so far and the string to print, \<open>None\<close> when the string is written and
  \<open>Some err\<close> when \<^verbatim>\<open>print\<close> raises and nothing is written.
\<close>

type_synonym printer = "pystr list \<Rightarrow> pystr \<Rightarrow> print_error option"

subsection \<open>The scan\<close>

text \<open>
  The \<^verbatim>\<open>while j >= 0 and lines[j].startswith("msgid")\<close> loop, entered with \<open>j\<close> and the output
  printed so far. The condition reads \<^verbatim>\<open>lines[j]\<close> only after \<^verbatim>\<open>j >= 0\<close> held, and the body
  reads it again for the \<^verbatim>\<open>print\<close>. A \<^verbatim>\<open>print\<close> that raises ends the loop with the exception
  pending.
\<close>

partial_function (option) context_walk ::
  "printer \<Rightarrow> pystr list \<Rightarrow> int \<Rightarrow> pystr list \<Rightarrow> (exn option \<times> pystr list) option" where
  "context_walk pr lines j out =
     (if j \<ge> 0 then
        (case getitem lines j of
           Inl e \<Rightarrow> Some (Some e, out)
         | Inr l \<Rightarrow>
             if startswith l msgid_prefix then
               (case getitem lines j of
                  Inl e \<Rightarrow> Some (Some e, out)
                | Inr l' \<Rightarrow>
                    (case pr out (context_line (strip l')) of
                       Some err \<Rightarrow> Some (Some (raised err), out)
                     | None \<Rightarrow>
                         context_walk pr lines (j - 1) (out @ [context_line (strip l')])))
             else Some (None, out))
      else Some (None, out))"

declare context_walk.simps [code]

text \<open>
  \<^verbatim>\<open>is_header = False; if i > 0 and lines[i-1].strip() == 'msgid ""': is_header = True\<close>.
  The \<^verbatim>\<open>and\<close> short-circuits, so \<^verbatim>\<open>lines[i-1]\<close> is read only when \<open>i > 0\<close>.
\<close>

definition is_header :: "pystr list \<Rightarrow> nat \<Rightarrow> exn + bool" where
  "is_header lines i =
     (if i > 0 then
        (case getitem lines (int i - 1) of
           Inl e \<Rightarrow> Inl e
         | Inr prev \<Rightarrow> Inr (strip prev = msgid_empty))
      else Inr False)"

text \<open>
  The body of the \<^verbatim>\<open>for\<close> loop at index \<open>i\<close> and element \<open>line\<close>. When the \<^verbatim>\<open>print\<close> of the
  location line raises, the backward walk is not reached.
\<close>

definition loop_body ::
  "printer \<Rightarrow> pystr list \<Rightarrow> nat \<Rightarrow> pystr \<Rightarrow> pystr list \<Rightarrow>
     (exn option \<times> pystr list) option" where
  "loop_body pr lines i line out =
     (if strip line = msgstr_empty then
        (case is_header lines i of
           Inl e \<Rightarrow> Some (Some e, out)
         | Inr h \<Rightarrow>
             if \<not> h then
               (case pr out (report_line i (strip line)) of
                  Some err \<Rightarrow> Some (Some (raised err), out)
                | None \<Rightarrow>
                    context_walk pr lines (int i - 1) (out @ [report_line i (strip line)]))
             else Some (None, out))
      else Some (None, out))"

text \<open>
  \<^verbatim>\<open>for i, line in enumerate(lines)\<close>: the pairs are consumed in order, and a pending
  exception or a body that does not return ends the loop.
\<close>

fun scan_loop ::
  "printer \<Rightarrow> pystr list \<Rightarrow> (nat \<times> pystr) list \<Rightarrow> pystr list \<Rightarrow>
     (exn option \<times> pystr list) option" where
  "scan_loop pr lines [] out = Some (None, out)"
| "scan_loop pr lines ((i, line) # rest) out =
     (case loop_body pr lines i line out of
        None \<Rightarrow> None
      | Some (Some e, out') \<Rightarrow> Some (Some e, out')
      | Some (None, out') \<Rightarrow> scan_loop pr lines rest out')"

subsection \<open>The script\<close>

text \<open>What a run leaves behind: the printed strings, and an exception that escaped.\<close>

record outcome =
  stdout :: "pystr list"
  uncaught :: "exn option"

text \<open>
  \<^verbatim>\<open>except Exception as e: print(e)\<close>, entered with the output printed so far. This
  \<^verbatim>\<open>print\<close> stands outside the \<^verbatim>\<open>try\<close> block; what it prints is a description written by
  CPython for a failed \<^verbatim>\<open>open\<close>, a failed decoding or a failed \<^verbatim>\<open>print\<close>, and it is taken to
  be written.
\<close>

definition handler :: "exn \<Rightarrow> pystr list \<Rightarrow> outcome" where
  "handler e out =
     (if is_Exception (exn_cls e) then \<lparr>stdout = out @ [exn_str e], uncaught = None\<rparr>
      else \<lparr>stdout = out, uncaught = Some e\<rparr>)"

text \<open>
  The \<^verbatim>\<open>try\<close> statement, given the standard output and the outcome of opening and reading
  the catalog: \<open>Inl e\<close> when \<^verbatim>\<open>open\<close> or \<^verbatim>\<open>readlines\<close> raised \<open>e\<close>, \<open>Inr lines\<close> otherwise.
\<close>

definition find_missing :: "printer \<Rightarrow> exn + pystr list \<Rightarrow> outcome option" where
  "find_missing pr rd =
     (case rd of
        Inl e \<Rightarrow> Some (handler e [])
      | Inr lines \<Rightarrow>
          (case scan_loop pr lines (List.enumerate 0 lines) [] of
             None \<Rightarrow> None
           | Some (Some e, out) \<Rightarrow> Some (handler e out)
           | Some (None, out) \<Rightarrow> Some \<lparr>stdout = out, uncaught = None\<rparr>))"

text \<open>
  The script in its environment. The file system gives, for a path, what opening it for
  reading as UTF-8 and calling \<^verbatim>\<open>readlines()\<close> yields; the stream is the standard output
  that every run is started with; the console holds what has been printed. A run reads
  the one hard-coded path and appends to the console.
\<close>

record world =
  files :: "string \<Rightarrow> exn + pystr list"
  stream :: printer
  console :: "pystr list"

definition catalog_path :: string where
  "catalog_path =
     ''d:/Develop/hua0512/stream-rec/rust-srec/rust-srec/frontend/src/locales/zh-CN/messages.po''"

definition run_script :: "world \<Rightarrow> (world \<times> exn option) option" where
  "run_script w =
     (case find_missing (stream w) (files w catalog_path) of
        None \<Rightarrow> None
      | Some r \<Rightarrow> Some (w\<lparr>console := console w @ stdout r\<rparr>, uncaught r))"

subsection \<open>The specification's reading of a report block\<close>

text \<open>
  The specification describes the output per Entry Marker: the Context Lines are the
  consecutive lines before the marker that start with \<^verbatim>\<open>msgid\<close>, collected walking
  backward; a marker is reported unless its predecessor strips to \<^verbatim>\<open>msgid ""\<close>; a block is
  the location line followed by the context lines. These definitions follow those words;
  the lemmas below relate the loops of the script to them.
\<close>

definition spec_context :: "pystr list \<Rightarrow> nat \<Rightarrow> pystr list" where
  "spec_context lines i =
     map (\<lambda>l. lit ''  Context: '' @ strip l)
       (takeWhile (\<lambda>l. startswith l (lit ''msgid'')) (rev (take i lines)))"

definition spec_reported :: "pystr list \<Rightarrow> nat \<Rightarrow> bool" where
  "spec_reported lines i \<longleftrightarrow>
     strip (lines ! i) = lit ''msgstr \"\"'' \<and>
     \<not> (0 < i \<and> strip (lines ! (i - 1)) = lit ''msgid \"\"'')"

definition spec_block :: "pystr list \<Rightarrow> nat \<Rightarrow> pystr list" where
  "spec_block lines i =
     (if spec_reported lines i
      then (lit ''Line '' @ str_nat (i + 1) @ lit '': '' @ strip (lines ! i)) #
           spec_context lines i
      else [])"

text \<open>
  Printing a sequence of strings in order until a \<^verbatim>\<open>print\<close> raises: the pending exception,
  if any, and the strings written.
\<close>

fun emit :: "printer \<Rightarrow> pystr list \<Rightarrow> pystr list \<Rightarrow> exn option \<times> pystr list" where
  "emit pr out [] = (None, out)"
| "emit pr out (s # ss) =
     (case pr out s of
        Some err \<Rightarrow> (Some (raised err), out)
      | None \<Rightarrow> emit pr (out @ [s]) ss)"

text \<open>
  The output as the specification words it: one block per non-header Entry Marker, in
  file order, each the location line \<^verbatim>\<open>Line <1-based index>: <trimmed content>\<close>
  followed by its context lines.
\<close>

definition spec_output :: "pystr list \<Rightarrow> pystr list" where
  "spec_output lines =
     concat (map (\<lambda>i. (lit ''Line '' @ str_nat (i + 1) @ lit '': '' @ strip (lines ! i)) #
                       spec_context lines i)
       (filter (spec_reported lines) [0..<length lines]))"


subsection \<open>Auxiliary definitions\<close>

text \<open>The number written by a string of decimal digits, used to invert \<open>str_nat\<close>.\<close>

definition digits_val :: "pystr \<Rightarrow> nat" where
  "digits_val ds = foldl (\<lambda>a d. 10 * a + (d - 48)) 0 ds"

subsection \<open>Catalogs and standard outputs used as examples\<close>

text \<open>The header entry alone.\<close>

definition header_only :: "pystr list" where
  "header_only = [lit ''msgid \"\"'' @ [10], lit ''msgstr \"\"'' @ [10]]"

text \<open>The header followed by one untranslated entry.\<close>

definition hello_catalog :: "pystr list" where
  "hello_catalog =
     [lit ''msgid \"\"'' @ [10], lit ''msgstr \"\"'' @ [10], [10],
      lit ''msgid \"Hello\"'' @ [10], lit ''msgstr \"\"'' @ [10]]"

text \<open>A catalog whose second entry is translated.\<close>

definition bonjour_catalog :: "pystr list" where
  "bonjour_catalog =
     [lit ''msgid \"\"'' @ [10], lit ''msgstr \"\"'' @ [10], [10],
      lit ''msgid \"Hello\"'' @ [10], lit ''msgstr \"Bonjour\"'' @ [10]]"

text \<open>A catalog with a second entry whose \<^verbatim>\<open>msgid\<close> is empty, away from the header.\<close>

definition empty_msgid_catalog :: "pystr list" where
  "empty_msgid_catalog =
     [lit ''msgid \"\"'' @ [10], lit ''msgstr \"\"'' @ [10], [10],
      lit ''msgid \"\"'' @ [10], lit ''msgstr \"\"'' @ [10]]"

text \<open>An untranslated entry whose key is spread over two lines that both start with
  \<^verbatim>\<open>msgid\<close>.\<close>

definition multiline_catalog :: "pystr list" where
  "multiline_catalog =
     [lit ''msgid \"line one \"'' @ [10], lit ''msgid \"line two\"'' @ [10],
      lit ''msgstr \"\"'' @ [10]]"

text \<open>An Entry Marker on the first line, with \<^verbatim>\<open>msgid ""\<close> as the last line, which is
  the line that Python's \<^verbatim>\<open>lines[-1]\<close> denotes.\<close>

definition trailing_msgid_catalog :: "pystr list" where
  "trailing_msgid_catalog = [lit ''msgstr \"\"'' @ [10], lit ''msgid \"\"'' @ [10]]"

text \<open>The header followed by two untranslated entries.\<close>

definition two_entries_catalog :: "pystr list" where
  "two_entries_catalog =
     [lit ''msgid \"\"'' @ [10], lit ''msgstr \"\"'' @ [10], [10],
      lit ''msgid \"Hello\"'' @ [10], lit ''msgstr \"\"'' @ [10], [10],
      lit ''msgid \"Bye\"'' @ [10], lit ''msgstr \"\"'' @ [10]]"

text \<open>Two untranslated entries without a header; the key of the first is the two ideographs
  U+4F60 U+597D.\<close>

definition nihao_catalog :: "pystr list" where
  "nihao_catalog =
     [lit ''msgid \"'' @ [20320, 22909] @ lit ''\"'' @ [10], lit ''msgstr \"\"'' @ [10],
      lit ''msgid \"Hello\"'' @ [10], lit ''msgstr \"\"'' @ [10]]"

text \<open>A standard output encoded as UTF-8: it has a code for every character of a decoded
  catalog, and every string is written.\<close>

definition utf8_stdout :: printer where
  "utf8_stdout = (\<lambda>h s. None)"

text \<open>A standard output encoded as Latin-1 (\<^verbatim>\<open>PYTHONIOENCODING=latin-1\<close>): a string with a
  character above U+00FF is refused. The detail of the description names the first run
  of such characters, as CPython does: a single character by its escape
  (\<^verbatim>\<open>\u\<close> and four hexadecimal digits, or \<^verbatim>\<open>\U\<close> and eight) and its position, a longer run
  by its first and last position.\<close>

definition hex_digit :: "nat \<Rightarrow> nat" where
  "hex_digit d = (if d < 10 then 48 + d else 87 + d)"

definition py_escape :: "nat \<Rightarrow> pystr" where
  "py_escape c =
     (if c < 65536
      then [92, 117, hex_digit (c div 4096 mod 16), hex_digit (c div 256 mod 16),
            hex_digit (c div 16 mod 16), hex_digit (c mod 16)]
      else [92, 85, hex_digit (c div 268435456 mod 16), hex_digit (c div 16777216 mod 16),
            hex_digit (c div 1048576 mod 16), hex_digit (c div 65536 mod 16),
            hex_digit (c div 4096 mod 16), hex_digit (c div 256 mod 16),
            hex_digit (c div 16 mod 16), hex_digit (c mod 16)])"

definition latin1_detail :: "pystr \<Rightarrow> pystr" where
  "latin1_detail s =
     (let a = length (takeWhile (\<lambda>c. c < 256) s);
          n = length (takeWhile (\<lambda>c. 256 \<le> c) (dropWhile (\<lambda>c. c < 256) s))
      in if n = 1
         then lit ''character '' @ [39] @ py_escape (s ! a) @ [39] @ lit '' in position '' @
              str_nat a @ lit '': ordinal not in range(256)''
         else lit ''characters in position '' @ str_nat a @ lit ''-'' @ str_nat (a + n - 1) @
              lit '': ordinal not in range(256)'')"

definition latin1_stdout :: printer where
  "latin1_stdout =
     (\<lambda>h s. if list_all (\<lambda>c. c < 256) s then None
            else Some (EncodeError (lit ''latin-1'') (latin1_detail s)))"

text \<open>A world where the hard-coded path holds the second catalog, standard output is UTF-8
  and nothing was printed.\<close>

definition hello_world :: world where
  "hello_world =
     \<lparr>files = (\<lambda>p. if p = catalog_path then Inr hello_catalog
                   else Inl (Exn FileNotFoundError (lit ''[Errno 2] No such file or directory''))),
      stream = utf8_stdout,
      console = []\<rparr>"

section \<open>The loops print the specified blocks until a print raises\<close>

lemmas eval_defs =
  header_only_def hello_catalog_def bonjour_catalog_def empty_msgid_catalog_def
  multiline_catalog_def trailing_msgid_catalog_def two_entries_catalog_def nihao_catalog_def
  strip_def lstrip_def rstrip_def isspace_def lit_def
  msgstr_empty_def msgid_empty_def msgid_prefix_def startswith_def str_nat.simps

lemma getitem_nat: "k < length xs \<Longrightarrow> getitem xs (int k) = Inr (xs ! k)"
  by (simp add: getitem_def)

lemma spec_context_0: "spec_context lines 0 = []"
  by (simp add: spec_context_def)

lemma spec_context_Suc:
  "k < length lines \<Longrightarrow>
   spec_context lines (Suc k) =
     (if startswith (lines ! k) msgid_prefix
      then context_line (strip (lines ! k)) # spec_context lines k else [])"
  by (simp add: spec_context_def take_Suc_conv_app_nth context_line_def msgid_prefix_def)

lemma spec_block_model:
  "spec_block lines i =
     (if strip (lines ! i) = msgstr_empty \<and>
         \<not> (0 < i \<and> strip (lines ! (i - 1)) = msgid_empty)
      then report_line i (strip (lines ! i)) # spec_context lines i else [])"
  by (simp add: spec_block_def spec_reported_def report_line_def msgstr_empty_def
      msgid_empty_def)

lemma context_walk_emit:
  "k \<le> length lines \<Longrightarrow>
   context_walk pr lines (int k - 1) out = Some (emit pr out (spec_context lines k))"
proof (induction k arbitrary: out)
  case 0
  show ?case by (subst context_walk.simps) (simp add: spec_context_0)
next
  case (Suc k)
  then have lt: "k < length lines" and le: "k \<le> length lines" by simp_all
  have step: "int (Suc k) - 1 = int k" by simp
  let ?s = "context_line (strip (lines ! k))"
  show ?case
  proof (cases "startswith (lines ! k) msgid_prefix")
    case False
    have "context_walk pr lines (int k) out = Some (None, out)"
      by (subst context_walk.simps) (simp add: getitem_nat [OF lt] False)
    then show ?thesis
      by (simp add: step spec_context_Suc [OF lt] False)
  next
    case True
    show ?thesis
    proof (cases "pr out ?s")
      case (Some err)
      have "context_walk pr lines (int k) out = Some (Some (raised err), out)"
        by (subst context_walk.simps) (simp add: getitem_nat [OF lt] True Some)
      then show ?thesis
        by (simp add: step spec_context_Suc [OF lt] True Some)
    next
      case None
      have "context_walk pr lines (int k) out = context_walk pr lines (int k - 1) (out @ [?s])"
        by (subst context_walk.simps) (simp add: getitem_nat [OF lt] True None)
      also have "\<dots> = Some (emit pr (out @ [?s]) (spec_context lines k))"
        by (rule Suc.IH [OF le])
      finally show ?thesis
        by (simp add: step spec_context_Suc [OF lt] True None)
    qed
  qed
qed

lemma is_header_spec:
  "i < length lines \<Longrightarrow>
   is_header lines i = Inr (0 < i \<and> strip (lines ! (i - 1)) = msgid_empty)"
proof (cases i)
  case 0
  then show ?thesis by (simp add: is_header_def)
next
  case (Suc k)
  assume "i < length lines"
  with Suc have "k < length lines" by simp
  then have "getitem lines (int k) = Inr (lines ! k)" by (rule getitem_nat)
  with Suc show ?thesis by (simp add: is_header_def)
qed

lemma loop_body_emit:
  assumes "i < length lines"
  shows "loop_body pr lines i (lines ! i) out = Some (emit pr out (spec_block lines i))"
proof -
  define j where "j = int i - 1"
  define r where "r = report_line i (strip (lines ! i))"
  define c where "c \<longleftrightarrow> strip (lines ! i) = msgstr_empty \<and>
    \<not> (0 < i \<and> strip (lines ! (i - 1)) = msgid_empty)"
  have le: "i \<le> length lines" using assms by simp
  have walk: "context_walk pr lines j out' = Some (emit pr out' (spec_context lines i))" for out'
    unfolding j_def by (rule context_walk_emit [OF le])
  have body: "loop_body pr lines i (lines ! i) out =
      (if c then (case pr out r of
                    Some err \<Rightarrow> Some (Some (raised err), out)
                  | None \<Rightarrow> context_walk pr lines j (out @ [r]))
       else Some (None, out))"
    unfolding j_def r_def c_def
    by (simp add: loop_body_def is_header_spec [OF assms])
  have block: "spec_block lines i = (if c then r # spec_context lines i else [])"
    unfolding r_def c_def by (rule spec_block_model)
  show ?thesis
    unfolding body block by (cases "pr out r") (simp_all add: walk)
qed

lemma emit_append:
  "emit pr out (xs @ ys) =
     (case emit pr out xs of
        (None, out') \<Rightarrow> emit pr out' ys
      | (Some e, out') \<Rightarrow> (Some e, out'))"
  by (induction xs arbitrary: out) (simp_all split: option.split)

lemma scan_loop_emit:
  "drop k lines = xs \<Longrightarrow>
   scan_loop pr lines (List.enumerate k xs) out =
     Some (emit pr out (concat (map (spec_block lines) [k..<length lines])))"
proof (induction xs arbitrary: k out)
  case Nil
  then have "length lines \<le> k" by simp
  then show ?case by simp
next
  case (Cons x xs)
  from Cons.prems have lt: "k < length lines"
    by (metis drop_eq_Nil list.distinct(1) not_le)
  from Cons.prems have x: "lines ! k = x"
    by (metis lt Cons_nth_drop_Suc list.inject)
  from Cons.prems have rest: "drop (Suc k) lines = xs"
    by (metis lt Cons_nth_drop_Suc list.inject)
  have idx: "[k..<length lines] = k # [Suc k..<length lines]"
    using lt by (rule upt_conv_Cons)
  have body: "loop_body pr lines k x out = Some (emit pr out (spec_block lines k))"
    using loop_body_emit [OF lt, of pr out] by (simp add: x)
  show ?case
  proof (cases "emit pr out (spec_block lines k)")
    case (Pair e out')
    show ?thesis
    proof (cases e)
      case (Some ex)
      then show ?thesis using body Pair by (simp add: idx emit_append)
    next
      case None
      then show ?thesis
        using body Pair Cons.IH [OF rest, of out'] by (simp add: idx emit_append)
    qed
  qed
qed

lemma emit_None: "emit pr out ss = (None, out') \<Longrightarrow> out' = out @ ss"
proof (induction ss arbitrary: out)
  case Nil
  then show ?case by simp
next
  case (Cons s ss)
  show ?case
  proof (cases "pr out s")
    case (Some err)
    with Cons.prems show ?thesis by simp
  next
    case None
    with Cons.prems have "emit pr (out @ [s]) ss = (None, out')" by simp
    then have "out' = (out @ [s]) @ ss" by (rule Cons.IH)
    then show ?thesis by simp
  qed
qed

lemma emit_take: "\<exists>n. n \<le> length ss \<and> snd (emit pr out ss) = out @ take n ss"
proof (induction ss arbitrary: out)
  case Nil
  show ?case by simp
next
  case (Cons s ss)
  show ?case
  proof (cases "pr out s")
    case (Some err)
    then have "snd (emit pr out (s # ss)) = out @ take 0 (s # ss)" by simp
    then show ?thesis by blast
  next
    case None
    from Cons [of "out @ [s]"] obtain n where
      "n \<le> length ss" "snd (emit pr (out @ [s]) ss) = (out @ [s]) @ take n ss" by blast
    then have "Suc n \<le> length (s # ss) \<and>
        snd (emit pr out (s # ss)) = out @ take (Suc n) (s # ss)"
      using None by simp
    then show ?thesis by blast
  qed
qed

lemma emit_raised: "emit pr out ss = (Some e, out') \<Longrightarrow> \<exists>err. e = raised err"
proof (induction ss arbitrary: out)
  case Nil
  then show ?case by simp
next
  case (Cons s ss)
  show ?case
  proof (cases "pr out s")
    case (Some err)
    with Cons.prems show ?thesis by auto
  next
    case None
    with Cons.prems have "emit pr (out @ [s]) ss = (Some e, out')" by simp
    then show ?thesis by (rule Cons.IH)
  qed
qed

lemma raised_caught: "is_Exception (exn_cls (raised err))"
  by (cases err) simp_all

lemma raised_not_index: "exn_cls (raised err) \<noteq> IndexError"
  by (cases err) simp_all

lemma raised_not_report: "exn_str (raised err) \<noteq> report_line i t"
  by (cases err) (simp_all add: report_line_def lit_def)

lemma raised_not_context: "exn_str (raised err) \<noteq> context_line t"
  by (cases err) (simp_all add: context_line_def lit_def)

lemma find_missing_emit:
  "find_missing pr (Inr lines) =
     Some (case emit pr [] (concat (map (spec_block lines) [0..<length lines])) of
             (None, out) \<Rightarrow> \<lparr>stdout = out, uncaught = None\<rparr>
           | (Some e, out) \<Rightarrow> \<lparr>stdout = out @ [exn_str e], uncaught = None\<rparr>)"
proof (cases "emit pr [] (concat (map (spec_block lines) [0..<length lines]))")
  case (Pair e out)
  have scan: "scan_loop pr lines (List.enumerate 0 lines) [] = Some (e, out)"
    using scan_loop_emit [of 0 lines lines pr "[]"] Pair by simp
  show ?thesis
  proof (cases e)
    case None
    then show ?thesis using scan Pair by (simp add: find_missing_def)
  next
    case (Some ex)
    then obtain err where "ex = raised err" using Pair emit_raised by blast
    then show ?thesis
      using scan Pair Some raised_caught [of err] by (simp add: find_missing_def handler_def)
  qed
qed

lemma str_nat_digits: "c \<in> set (str_nat n) \<Longrightarrow> 48 \<le> c \<and> c \<le> 57"
proof (induction n arbitrary: c rule: str_nat.induct)
  case (1 n)
  show ?case
  proof (cases "n < 10")
    case True
    with "1.prems" show ?thesis by (subst (asm) str_nat.simps) simp
  next
    case False
    from "1.prems" False have "c \<in> set (str_nat (n div 10)) \<or> c = 48 + n mod 10"
      by (subst (asm) str_nat.simps) auto
    then show ?thesis
    proof
      assume "c \<in> set (str_nat (n div 10))"
      then show ?thesis using "1.IH" False by simp
    next
      assume "c = 48 + n mod 10"
      moreover have "n mod 10 < 10" by simp
      ultimately show ?thesis by linarith
    qed
  qed
qed

lemma digits_val_str_nat: "digits_val (str_nat n) = n"
proof (induction n rule: str_nat.induct)
  case (1 n)
  show ?case
  proof (cases "n < 10")
    case True
    then show ?thesis by (subst str_nat.simps) (simp add: digits_val_def)
  next
    case False
    then have "digits_val (str_nat (n div 10)) = n div 10" using "1.IH" by simp
    then have "digits_val (str_nat (n div 10) @ [48 + n mod 10]) = 10 * (n div 10) + n mod 10"
      by (simp add: digits_val_def)
    with False show ?thesis by (subst str_nat.simps) simp
  qed
qed

lemma str_nat_inject: "str_nat m = str_nat n \<Longrightarrow> m = n"
  by (metis digits_val_str_nat)

lemma colon_split:
  assumes "xs @ 58 # r = ys @ 58 # r'" and "58 \<notin> set xs" and "58 \<notin> set ys"
  shows "xs = ys \<and> r = (r' :: nat list)"
proof -
  have "takeWhile (\<lambda>c. c \<noteq> 58) (xs @ 58 # r) = xs"
    using assms(2) by (induction xs) auto
  moreover have "takeWhile (\<lambda>c. c \<noteq> 58) (ys @ 58 # r') = ys"
    using assms(3) by (induction ys) auto
  ultimately have "xs = ys" using assms(1) by simp
  with assms(1) show ?thesis by simp
qed

lemma report_line_inject:
  assumes "report_line i t = report_line k u"
  shows "i = k \<and> t = u"
proof -
  have no: "58 \<notin> set (str_nat n)" for n
    using str_nat_digits [of 58 n] by auto
  from assms have "str_nat (i + 1) @ 58 # 32 # t = str_nat (k + 1) @ 58 # 32 # u"
    by (simp add: report_line_def lit_def)
  then have "str_nat (i + 1) = str_nat (k + 1) \<and> 32 # t = 32 # u"
    by (rule colon_split [OF _ no no])
  then show ?thesis using str_nat_inject by auto
qed

lemma report_line_not_context: "report_line i t \<noteq> context_line u"
  by (simp add: report_line_def context_line_def lit_def)

lemma report_line_prefix: "startswith (report_line i t) (lit ''Line '')"
  by (simp add: startswith_def report_line_def lit_def)






lemma spec_context_shape:
  "l \<in> set (spec_context lines i) \<Longrightarrow> \<exists>ln \<in> set lines. l = context_line (strip ln)"
  by (auto simp: spec_context_def context_line_def dest!: set_takeWhileD in_set_takeD)

lemma in_spec_block:
  "l \<in> set (spec_block lines k) \<longleftrightarrow>
     spec_reported lines k \<and>
     (l = report_line k (strip (lines ! k)) \<or> l \<in> set (spec_context lines k))"
  by (simp add: spec_block_def report_line_def)

lemma report_in_blocks:
  "report_line i t \<in> set (concat (map (spec_block lines) [0..<n])) \<longleftrightarrow>
     i < n \<and> spec_reported lines i \<and> t = strip (lines ! i)"
proof -
  have "report_line i t \<in> set (spec_block lines k) \<longleftrightarrow>
          k = i \<and> spec_reported lines i \<and> t = strip (lines ! i)" for k
    using report_line_inject [of i t k "strip (lines ! k)"]
      spec_context_shape [of "report_line i t" lines k] report_line_not_context [of i t]
    by (auto simp: in_spec_block)
  then show ?thesis by auto
qed

lemma run_cases:
  fixes pr :: printer and lines :: "pystr list"
  defines "E \<equiv> concat (map (spec_block lines) [0..<length lines])"
  shows "(scan_loop pr lines (List.enumerate 0 lines) [] = Some (None, E) \<and>
          find_missing pr (Inr lines) = Some \<lparr>stdout = E, uncaught = None\<rparr>) \<or>
         (\<exists>n err. n \<le> length E \<and>
            scan_loop pr lines (List.enumerate 0 lines) [] = Some (Some (raised err), take n E) \<and>
            find_missing pr (Inr lines) =
              Some \<lparr>stdout = take n E @ [exn_str (raised err)], uncaught = None\<rparr>)"
proof (cases "emit pr [] E")
  case (Pair e wr)
  have scan: "scan_loop pr lines (List.enumerate 0 lines) [] = Some (e, wr)"
    using scan_loop_emit [of 0 lines lines pr "[]"] Pair by (simp add: E_def)
  have run: "find_missing pr (Inr lines) =
      Some (case (e, wr) of
              (None, out) \<Rightarrow> \<lparr>stdout = out, uncaught = None\<rparr>
            | (Some x, out) \<Rightarrow> \<lparr>stdout = out @ [exn_str x], uncaught = None\<rparr>)"
    using find_missing_emit [of pr lines] Pair by (simp add: E_def)
  show ?thesis
  proof (cases e)
    case None
    then have "wr = E" using Pair emit_None [of pr "[]" E "wr"] by simp
    then show ?thesis using scan run None by simp
  next
    case (Some x)
    then obtain err where x: "x = raised err" using Pair emit_raised by blast
    obtain n where "n \<le> length E" "wr = take n E"
      using emit_take [of E pr "[]"] Pair by auto
    then show ?thesis using scan run Some x by auto
  qed
qed

lemma header_only_blocks:
  "concat (map (spec_block header_only) [0..<length header_only]) = []"
proof -
  have "spec_block header_only 0 = []" "spec_block header_only 1 = []"
    by (simp_all add: spec_block_def spec_reported_def eval_defs)
  moreover have "[0..<length header_only] = [0, 1]"
    by (simp add: header_only_def upt_conv_Cons)
  ultimately show ?thesis by simp
qed

lemma hello_blocks:
  "concat (map (spec_block hello_catalog) [0..<length hello_catalog]) =
     [lit ''Line 5: msgstr \"\"'', lit ''  Context: msgid \"Hello\"'']"
proof -
  have "spec_block hello_catalog 0 = []" "spec_block hello_catalog 1 = []"
    "spec_block hello_catalog 2 = []" "spec_block hello_catalog 3 = []"
    by (simp_all add: spec_block_def spec_reported_def eval_defs)
  moreover have "spec_block hello_catalog 4 =
      [lit ''Line 5: msgstr \"\"'', lit ''  Context: msgid \"Hello\"'']"
    by (simp add: spec_block_def spec_reported_def spec_context_def eval_defs)
  moreover have "[0..<length hello_catalog] = [0, 1, 2, 3, 4]"
    by (simp add: hello_catalog_def upt_conv_Cons)
  ultimately show ?thesis by simp
qed


lemma nihao_blocks:
  "concat (map (spec_block nihao_catalog) [0..<length nihao_catalog]) =
     [lit ''Line 2: msgstr \"\"'',
      lit ''  Context: msgid \"'' @ [20320, 22909] @ lit ''\"'',
      lit ''Line 4: msgstr \"\"'', lit ''  Context: msgid \"Hello\"'']"
proof -
  have "spec_block nihao_catalog 0 = []" "spec_block nihao_catalog 2 = []"
    by (simp_all add: spec_block_def spec_reported_def eval_defs)
  moreover have "spec_block nihao_catalog 1 =
      [lit ''Line 2: msgstr \"\"'', lit ''  Context: msgid \"'' @ [20320, 22909] @ lit ''\"'']"
    by (simp add: spec_block_def spec_reported_def spec_context_def eval_defs)
  moreover have "spec_block nihao_catalog 3 =
      [lit ''Line 4: msgstr \"\"'', lit ''  Context: msgid \"Hello\"'']"
    by (simp add: spec_block_def spec_reported_def spec_context_def eval_defs)
  moreover have "[0..<length nihao_catalog] = [0, 1, 2, 3]"
    by (simp add: nihao_catalog_def upt_conv_Cons)
  ultimately show ?thesis by simp
qed

lemma utf8_emit: "emit utf8_stdout out ss = (None, out @ ss)"
  by (induction ss arbitrary: out) (simp_all add: utf8_stdout_def)

lemma utf8_scan:
  "scan_loop utf8_stdout lines (List.enumerate 0 lines) [] =
     Some (None, concat (map (spec_block lines) [0..<length lines]))"
  using scan_loop_emit [of 0 lines lines utf8_stdout "[]"] by (simp add: utf8_emit)

lemma utf8_run:
  "find_missing utf8_stdout (Inr lines) =
     Some \<lparr>stdout = concat (map (spec_block lines) [0..<length lines]), uncaught = None\<rparr>"
  by (simp add: find_missing_def utf8_scan)

lemma nihao_latin1_run:
  "find_missing latin1_stdout (Inr nihao_catalog) =
     Some \<lparr>stdout =
              [lit ''Line 2: msgstr \"\"'',
               [39] @ lit ''latin-1' codec can't encode characters in position 18-19: ordinal not in range(256)''],
           uncaught = None\<rparr>"
proof -
  have "emit latin1_stdout [] (concat (map (spec_block nihao_catalog) [0..<length nihao_catalog])) =
      (Some (raised (EncodeError (lit ''latin-1'')
         (lit ''characters in position 18-19: ordinal not in range(256)''))),
       [lit ''Line 2: msgstr \"\"''])"
    unfolding nihao_blocks
    by (simp add: latin1_stdout_def latin1_detail_def lit_def str_nat.simps)
  then show ?thesis
    using find_missing_emit [of latin1_stdout nihao_catalog] by (simp add: lit_def)
qed

lemma blocks_output: "concat (map (spec_block lines) [0..<length lines]) = spec_output lines"
proof -
  have "concat (map (spec_block lines) ks) =
      concat (map (\<lambda>i. (lit ''Line '' @ str_nat (i + 1) @ lit '': '' @ strip (lines ! i)) #
                        spec_context lines i)
        (filter (spec_reported lines) ks))" for ks
    by (induction ks) (simp_all add: spec_block_def)
  then show ?thesis by (simp add: spec_output_def)
qed

lemma blocks_head:
  "concat (map (spec_block lines) ks) = [] \<or>
   (\<exists>k t. hd (concat (map (spec_block lines) ks)) = report_line k t)"
proof (induction ks)
  case Nil
  show ?case by simp
next
  case (Cons k ks)
  show ?case
  proof (cases "spec_reported lines k")
    case True
    then have "hd (concat (map (spec_block lines) (k # ks))) = report_line k (strip (lines ! k))"
      by (simp add: spec_block_def report_line_def)
    then show ?thesis by blast
  next
    case False
    with Cons show ?thesis by (simp add: spec_block_def)
  qed
qed






lemma report_in_output:
  "report_line i t \<in> set (spec_output lines) \<longleftrightarrow>
     i < length lines \<and> spec_reported lines i \<and> t = strip (lines ! i)"
  using report_in_blocks [of i t lines "length lines"] by (simp add: blocks_output)

lemma run_output_cases:
  "(scan_loop pr lines (List.enumerate 0 lines) [] = Some (None, spec_output lines) \<and>
    find_missing pr (Inr lines) = Some \<lparr>stdout = spec_output lines, uncaught = None\<rparr>) \<or>
   (\<exists>n err. n \<le> length (spec_output lines) \<and>
      scan_loop pr lines (List.enumerate 0 lines) [] =
        Some (Some (raised err), take n (spec_output lines)) \<and>
      find_missing pr (Inr lines) =
        Some \<lparr>stdout = take n (spec_output lines) @ [exn_str (raised err)], uncaught = None\<rparr>)"
  using run_cases [of pr lines] by (simp add: blocks_output)

lemma run_reports:
  assumes "find_missing pr (Inr lines) = Some r" and "report_line i t \<in> set (stdout r)"
  shows "report_line i t \<in> set (spec_output lines)"
proof -
  from run_output_cases [of pr lines] show ?thesis
  proof
    assume "scan_loop pr lines (List.enumerate 0 lines) [] = Some (None, spec_output lines) \<and>
      find_missing pr (Inr lines) = Some \<lparr>stdout = spec_output lines, uncaught = None\<rparr>"
    with assms show ?thesis by auto
  next
    assume "\<exists>n err. n \<le> length (spec_output lines) \<and>
      scan_loop pr lines (List.enumerate 0 lines) [] =
        Some (Some (raised err), take n (spec_output lines)) \<and>
      find_missing pr (Inr lines) =
        Some \<lparr>stdout = take n (spec_output lines) @ [exn_str (raised err)], uncaught = None\<rparr>"
    then obtain n err where
      "find_missing pr (Inr lines) =
        Some \<lparr>stdout = take n (spec_output lines) @ [exn_str (raised err)], uncaught = None\<rparr>"
      by blast
    with assms have "report_line i t \<in> set (take n (spec_output lines)) \<or>
        report_line i t = exn_str (raised err)"
      by auto
    then have "report_line i t \<in> set (take n (spec_output lines))"
      using raised_not_report [of err i t] by auto
    then show ?thesis by (rule in_set_takeD)
  qed
qed

lemma run_caught:
  "\<exists>printed. find_missing pr (Inr lines) = Some \<lparr>stdout = printed, uncaught = None\<rparr>"
  using run_output_cases [of pr lines] by auto

lemma run_complete:
  assumes "scan_loop pr lines (List.enumerate 0 lines) [] = Some (None, printed)"
  shows "printed = spec_output lines"
    and "find_missing pr (Inr lines) = Some \<lparr>stdout = spec_output lines, uncaught = None\<rparr>"
  using run_output_cases [of pr lines] assms by auto


lemma report_line_text: "lit ''Line '' @ str_nat (i + 1) @ lit '': '' @ t = report_line i t"
  by (simp add: report_line_def)

lemma spec_context_two:
  assumes "2 \<le> i" and "i \<le> length lines"
    and "startswith (lines ! (i - 1)) (lit ''msgid'')"
    and "startswith (lines ! (i - 2)) (lit ''msgid'')"
  shows "spec_context lines i =
           (lit ''  Context: '' @ strip (lines ! (i - 1))) #
           (lit ''  Context: '' @ strip (lines ! (i - 2))) # spec_context lines (i - 2)"
proof -
  from assms(1) obtain k where k: "i = Suc (Suc k)"
    by (metis Suc_le_D numeral_2_eq_2 Suc_le_mono le_0_eq not0_implies_Suc)
  with assms(2) have "Suc k < length lines" "k < length lines" by simp_all
  then show ?thesis
    using assms(3,4)
    by (simp add: k spec_context_Suc msgid_prefix_def context_line_def)
qed


lemma loop_body_non_marker:
  "strip line \<noteq> msgstr_empty \<Longrightarrow> loop_body pr lines i line out = Some (None, out)"
  by (simp add: loop_body_def)

lemma spec_reported_model:
  "spec_reported lines i \<longleftrightarrow>
     strip (lines ! i) = msgstr_empty \<and>
     \<not> (0 < i \<and> strip (lines ! (i - 1)) = msgid_empty)"
  by (simp add: spec_reported_def msgstr_empty_def msgid_empty_def)

lemma run_no_report:
  assumes "\<not> spec_reported lines i"
  shows "\<exists>printed. find_missing pr (Inr lines) = Some \<lparr>stdout = printed, uncaught = None\<rparr> \<and>
            (\<forall>t. report_line i t \<notin> set printed)"
proof -
  obtain printed where
    run: "find_missing pr (Inr lines) = Some \<lparr>stdout = printed, uncaught = None\<rparr>"
    using run_caught by blast
  have "report_line i t \<notin> set printed" for t
    using run_reports [OF run, of i t] assms by (auto simp: report_in_output)
  with run show ?thesis by blast
qed

lemma context_walk_returns:
  "\<exists>e out'. context_walk pr lines j out = Some (e, out') \<and>
     length out' \<le> length out + nat (j + 1)"
proof (induction "nat (j + 1)" arbitrary: j out)
  case 0
  then have "\<not> j \<ge> 0" by simp
  then have "context_walk pr lines j out = Some (None, out)"
    by (subst context_walk.simps) simp
  then show ?case by simp
next
  case (Suc n)
  then have nonneg: "j \<ge> 0" and n: "n = nat ((j - 1) + 1)" by simp_all
  show ?case
  proof (cases "getitem lines j")
    case (Inl e)
    then have "context_walk pr lines j out = Some (Some e, out)"
      using nonneg by (subst context_walk.simps) simp
    then show ?thesis by simp
  next
    case (Inr l)
    show ?thesis
    proof (cases "startswith l msgid_prefix")
      case False
      then have "context_walk pr lines j out = Some (None, out)"
        using nonneg Inr by (subst context_walk.simps) simp
      then show ?thesis by simp
    next
      case True
      show ?thesis
      proof (cases "pr out (context_line (strip l))")
        case (Some err)
        then have "context_walk pr lines j out = Some (Some (raised err), out)"
          using nonneg Inr True by (subst context_walk.simps) simp
        then show ?thesis by simp
      next
        case None
        have step: "context_walk pr lines j out =
                      context_walk pr lines (j - 1) (out @ [context_line (strip l)])"
          using nonneg Inr True None by (subst context_walk.simps) simp
        from Suc.hyps(1) [OF n, of "out @ [context_line (strip l)]"]
        obtain e out' where
          "context_walk pr lines (j - 1) (out @ [context_line (strip l)]) = Some (e, out')"
          and "length out' \<le> length (out @ [context_line (strip l)]) + nat ((j - 1) + 1)"
          by blast
        with step nonneg show ?thesis by simp
      qed
    qed
  qed
qed

lemma emit_accepting:
  "\<forall>h s. pr h s = None \<Longrightarrow> emit pr out ss = (None, out @ ss)"
  by (induction ss arbitrary: out) simp_all

lemma emit_pending:
  assumes "emit pr out ss = (e, wr)"
  shows "\<forall>x. e = Some x \<longrightarrow> exn_cls x \<noteq> IndexError \<and> (\<exists>err. x = raised err)"
  using assms emit_raised [of pr out ss _ wr] raised_not_index by blast

lemma rest_cases:
  fixes E :: "pystr list"
  assumes "E = [] \<or> (\<exists>k t. hd E = report_line k t)"
  shows "take m E = [] \<or> (\<exists>k t. hd (take m E @ ys) = report_line k t)"
proof (cases "take m E = []")
  case True
  then show ?thesis by simp
next
  case False
  then have "0 < m" and "E \<noteq> []" by auto
  then have "hd (take m E @ ys) = hd E" using False by simp
  with assms \<open>E \<noteq> []\<close> show ?thesis by auto
qed

section \<open>The claims\<close>




text \<open>
  Claim C2, amended. For a reported Entry Marker at index \<open>i\<close> the loop body prints, in this
  order and until a \<^verbatim>\<open>print\<close> raises, the location line and then one
  \<^verbatim>\<open>  Context: <stripped text>\<close> line for each line of the longest run of lines that start with
  \<^verbatim>\<open>msgid\<close>, taken backward from index \<open>i - 1\<close>: the run ends at the first line without that
  prefix or at the start of the file. When the body ends with nothing raised, exactly
  these strings have been added. In a run whose scan ends with nothing raised this block
  is contiguous in the output, and what follows it is nothing or a location line. When the
  two lines before the marker both start with \<^verbatim>\<open>msgid\<close>, the line at \<open>i - 1\<close> comes before
  the line at \<open>i - 2\<close>: bottom-up.
\<close>

theorem context_lines_bottom_up:
  assumes "i < length lines" and "strip (lines ! i) = lit ''msgstr \"\"''"
    and "\<not> (0 < i \<and> strip (lines ! (i - 1)) = lit ''msgid \"\"'')"
  shows "loop_body pr lines i (lines ! i) out =
           Some (emit pr out
             ((lit ''Line '' @ str_nat (i + 1) @ lit '': '' @ strip (lines ! i)) #
              map (\<lambda>l. lit ''  Context: '' @ strip l)
                (takeWhile (\<lambda>l. startswith l (lit ''msgid'')) (rev (take i lines))))) \<and>
         (\<forall>out'. loop_body pr lines i (lines ! i) out = Some (None, out') \<longrightarrow>
            out' = out @
              (lit ''Line '' @ str_nat (i + 1) @ lit '': '' @ strip (lines ! i)) #
              map (\<lambda>l. lit ''  Context: '' @ strip l)
                (takeWhile (\<lambda>l. startswith l (lit ''msgid'')) (rev (take i lines)))) \<and>
         (\<forall>printed. scan_loop pr lines (List.enumerate 0 lines) [] = Some (None, printed) \<longrightarrow>
            (\<exists>pre post.
               printed = pre @
                 (lit ''Line '' @ str_nat (i + 1) @ lit '': '' @ strip (lines ! i)) #
                 map (\<lambda>l. lit ''  Context: '' @ strip l)
                   (takeWhile (\<lambda>l. startswith l (lit ''msgid'')) (rev (take i lines))) @ post \<and>
               (post = [] \<or>
                (\<exists>k t. hd post = lit ''Line '' @ str_nat (k + 1) @ lit '': '' @ t)))) \<and>
         (2 \<le> i \<and> startswith (lines ! (i - 1)) (lit ''msgid'') \<and>
          startswith (lines ! (i - 2)) (lit ''msgid'') \<longrightarrow>
            (\<exists>more.
               map (\<lambda>l. lit ''  Context: '' @ strip l)
                 (takeWhile (\<lambda>l. startswith l (lit ''msgid'')) (rev (take i lines))) =
               (lit ''  Context: '' @ strip (lines ! (i - 1))) #
               (lit ''  Context: '' @ strip (lines ! (i - 2))) # more))"
proof -
  define loc where "loc = lit ''Line '' @ str_nat (i + 1) @ lit '': '' @ strip (lines ! i)"
  define ctx where "ctx = map (\<lambda>l. lit ''  Context: '' @ strip l)
                (takeWhile (\<lambda>l. startswith l (lit ''msgid'')) (rev (take i lines)))"
  let ?pre = "concat (map (spec_block lines) [0..<i])"
  let ?post = "concat (map (spec_block lines) [Suc i..<length lines])"
  have ctx: "spec_context lines i = ctx" by (simp add: spec_context_def ctx_def)
  have rep: "spec_reported lines i" using assms(2,3) by (simp add: spec_reported_def)
  have block: "spec_block lines i = loc # ctx"
    using rep ctx by (simp add: spec_block_def loc_def)
  have body: "loop_body pr lines i (lines ! i) out = Some (emit pr out (loc # ctx))"
    using loop_body_emit [OF assms(1), of pr out] block by simp
  have quiet: "out' = out @ loc # ctx"
    if "loop_body pr lines i (lines ! i) out = Some (None, out')" for out'
    using that body emit_None [of pr out "loc # ctx" out'] by simp
  have "[0..<i + (length lines - i)] = [0..<i] @ [i..<i + (length lines - i)]"
    by (rule upt_add_eq_append) simp
  then have "[0..<length lines] = [0..<i] @ i # [Suc i..<length lines]"
    using assms(1) by (simp add: upt_conv_Cons)
  then have split: "concat (map (spec_block lines) [0..<length lines]) =
      ?pre @ loc # ctx @ ?post"
    using block by simp
  have post: "?post = [] \<or>
      (\<exists>k t. hd ?post = lit ''Line '' @ str_nat (k + 1) @ lit '': '' @ t)"
    using blocks_head [of lines "[Suc i..<length lines]"]
    unfolding report_line_text .
  have whole: "\<exists>pre post. printed = pre @ loc # ctx @ post \<and>
      (post = [] \<or> (\<exists>k t. hd post = lit ''Line '' @ str_nat (k + 1) @ lit '': '' @ t))"
    if "scan_loop pr lines (List.enumerate 0 lines) [] = Some (None, printed)" for printed
  proof -
    have "printed = ?pre @ loc # ctx @ ?post"
      using run_complete(1) [OF that] split by (simp add: blocks_output)
    with post show ?thesis by blast
  qed
  have two: "\<exists>more. ctx = (lit ''  Context: '' @ strip (lines ! (i - 1))) #
               (lit ''  Context: '' @ strip (lines ! (i - 2))) # more"
    if "2 \<le> i" "startswith (lines ! (i - 1)) (lit ''msgid'')"
       "startswith (lines ! (i - 2)) (lit ''msgid'')"
  proof -
    have "i \<le> length lines" using assms(1) by simp
    from spec_context_two [OF that(1) this that(2,3)] ctx show ?thesis by simp
  qed
  show ?thesis
    unfolding loc_def [symmetric] ctx_def [symmetric]
    using body quiet whole two by blast
qed

theorem context_lines_bottom_up_witness:
  "2 < length multiline_catalog \<and> strip (multiline_catalog ! 2) = lit ''msgstr \"\"'' \<and>
   loop_body utf8_stdout multiline_catalog 2 (multiline_catalog ! 2) [] =
     Some (None, [lit ''Line 3: msgstr \"\"'',
                  lit ''  Context: msgid \"line two\"'',
                  lit ''  Context: msgid \"line one \"''])"
proof -
  have len: "2 < length multiline_catalog" by (simp add: multiline_catalog_def)
  have marker: "strip (multiline_catalog ! 2) = lit ''msgstr \"\"''" by (simp add: eval_defs)
  have prev: "\<not> (0 < (2::nat) \<and> strip (multiline_catalog ! (2 - 1)) = lit ''msgid \"\"'')"
    by (simp add: eval_defs)
  have block: "(lit ''Line '' @ str_nat (2 + 1) @ lit '': '' @ strip (multiline_catalog ! 2)) #
      map (\<lambda>l. lit ''  Context: '' @ strip l)
        (takeWhile (\<lambda>l. startswith l (lit ''msgid'')) (rev (take 2 multiline_catalog))) =
      [lit ''Line 3: msgstr \"\"'', lit ''  Context: msgid \"line two\"'',
       lit ''  Context: msgid \"line one \"'']"
    by (simp add: eval_defs)
  have "loop_body utf8_stdout multiline_catalog 2 (multiline_catalog ! 2) [] =
      Some (emit utf8_stdout []
        [lit ''Line 3: msgstr \"\"'', lit ''  Context: msgid \"line two\"'',
         lit ''  Context: msgid \"line one \"''])"
    using context_lines_bottom_up [OF len marker prev, of utf8_stdout "[]"]
    unfolding block by (rule conjunct1)
  then show ?thesis
    using len marker by (simp add: utf8_emit del: emit.simps)
qed

text \<open>
  The claim as first stated fails when the \<^verbatim>\<open>print\<close> of a context line raises: with a Latin-1
  standard output the marker at index 1 is reported, the line before it starts with
  \<^verbatim>\<open>msgid\<close>, and no context line for it is printed.
\<close>

theorem context_lines_bottom_up_counterexample:
  "strip (nihao_catalog ! 1) = lit ''msgstr \"\"'' \<and>
   \<not> (0 < (1::nat) \<and> strip (nihao_catalog ! (1 - 1)) = lit ''msgid \"\"'') \<and>
   startswith (nihao_catalog ! (1 - 1)) (lit ''msgid'') \<and>
   strip (nihao_catalog ! (1 - 1)) = lit ''msgid \"'' @ [20320, 22909] @ lit ''\"'' \<and>
   find_missing latin1_stdout (Inr nihao_catalog) =
     Some \<lparr>stdout =
              [lit ''Line 2: msgstr \"\"'',
               [39] @ lit ''latin-1' codec can't encode characters in position 18-19: ordinal not in range(256)''],
           uncaught = None\<rparr> \<and>
   lit ''  Context: msgid \"'' @ [20320, 22909] @ lit ''\"'' \<notin>
     set [lit ''Line 2: msgstr \"\"'',
          [39] @ lit ''latin-1' codec can't encode characters in position 18-19: ordinal not in range(256)'']"
proof -
  have "strip (nihao_catalog ! 1) = lit ''msgstr \"\"''" by (simp add: eval_defs)
  moreover have "\<not> (0 < (1::nat) \<and> strip (nihao_catalog ! (1 - 1)) = lit ''msgid \"\"'')"
    by (simp add: eval_defs)
  moreover have "startswith (nihao_catalog ! (1 - 1)) (lit ''msgid'')"
    by (simp add: eval_defs)
  moreover have "strip (nihao_catalog ! (1 - 1)) = lit ''msgid \"'' @ [20320, 22909] @ lit ''\"''"
    by (simp add: eval_defs)
  moreover have "lit ''  Context: msgid \"'' @ [20320, 22909] @ lit ''\"'' \<notin>
     set [lit ''Line 2: msgstr \"\"'',
          [39] @ lit ''latin-1' codec can't encode characters in position 18-19: ordinal not in range(256)'']"
    by (simp add: lit_def)
  ultimately show ?thesis using nihao_latin1_run by simp
qed

text \<open>
  Claim C3. An Entry Marker at any index \<open>i > 0\<close> whose predecessor strips to \<^verbatim>\<open>msgid ""\<close>
  is suppressed, whatever the standard output: the loop body leaves the output as it was,
  so neither a location line nor a context line is printed for it, and no location line
  for index \<open>i\<close> occurs in the output of the run. The catalog that holds the header pair
  alone prints nothing. The witness is an empty \<^verbatim>\<open>msgid\<close> in the middle of a catalog.
\<close>

theorem header_pair_suppressed:
  assumes "i < length lines" and "strip (lines ! i) = msgstr_empty"
    and "0 < i" and "strip (lines ! (i - 1)) = msgid_empty"
  shows "loop_body pr lines i (lines ! i) out = Some (None, out) \<and>
         (\<exists>printed. find_missing pr (Inr lines) = Some \<lparr>stdout = printed, uncaught = None\<rparr> \<and>
            (\<forall>t. report_line i t \<notin> set printed)) \<and>
         find_missing pr (Inr header_only) = Some \<lparr>stdout = [], uncaught = None\<rparr>"
proof -
  have hdr: "\<not> spec_reported lines i"
    using assms by (simp add: spec_reported_model)
  have "loop_body pr lines i (lines ! i) out = Some (None, out)"
    using loop_body_emit [OF assms(1), of pr out] hdr by (simp add: spec_block_def)
  moreover have "\<exists>printed. find_missing pr (Inr lines) =
      Some \<lparr>stdout = printed, uncaught = None\<rparr> \<and> (\<forall>t. report_line i t \<notin> set printed)"
    using hdr by (rule run_no_report)
  moreover have "find_missing pr (Inr header_only) = Some \<lparr>stdout = [], uncaught = None\<rparr>"
    using find_missing_emit [of pr header_only] by (simp add: header_only_blocks)
  ultimately show ?thesis by blast
qed

theorem header_pair_suppressed_witness:
  "4 < length empty_msgid_catalog \<and> strip (empty_msgid_catalog ! 4) = msgstr_empty \<and>
   strip (empty_msgid_catalog ! (4 - 1)) = msgid_empty \<and>
   loop_body latin1_stdout empty_msgid_catalog 4 (empty_msgid_catalog ! 4) [] = Some (None, [])"
proof -
  have len: "4 < length empty_msgid_catalog" by (simp add: empty_msgid_catalog_def)
  have marker: "strip (empty_msgid_catalog ! 4) = msgstr_empty" by (simp add: eval_defs)
  have pos: "0 < (4::nat)" by simp
  have prev: "strip (empty_msgid_catalog ! (4 - 1)) = msgid_empty" by (simp add: eval_defs)
  show ?thesis
    using header_pair_suppressed [OF len marker pos prev, of latin1_stdout "[]"] len marker prev
    by blast
qed



text \<open>
  Claim C5. A line whose stripped text differs from \<^verbatim>\<open>msgstr ""\<close> is not reported, whatever
  the standard output: the loop body at that line returns with the output unchanged, and
  the output of the run holds no location line for its index. The witness is a line
  \<^verbatim>\<open>msgstr "Bonjour"\<close>.
\<close>

theorem non_marker_silent:
  assumes "i < length lines" and "strip (lines ! i) \<noteq> msgstr_empty"
  shows "loop_body pr lines i (lines ! i) out = Some (None, out) \<and>
         (\<exists>printed. find_missing pr (Inr lines) = Some \<lparr>stdout = printed, uncaught = None\<rparr> \<and>
            (\<forall>t. report_line i t \<notin> set printed))"
proof -
  have "loop_body pr lines i (lines ! i) out = Some (None, out)"
    using assms(2) by (rule loop_body_non_marker)
  moreover have "\<not> spec_reported lines i"
    using assms(2) by (simp add: spec_reported_model)
  then have "\<exists>printed. find_missing pr (Inr lines) =
      Some \<lparr>stdout = printed, uncaught = None\<rparr> \<and> (\<forall>t. report_line i t \<notin> set printed)"
    by (rule run_no_report)
  ultimately show ?thesis by blast
qed

theorem non_marker_silent_witness:
  "4 < length bonjour_catalog \<and> strip (bonjour_catalog ! 4) \<noteq> msgstr_empty \<and>
   loop_body utf8_stdout bonjour_catalog 4 (bonjour_catalog ! 4) [] = Some (None, [])"
proof -
  have len: "4 < length bonjour_catalog" by (simp add: bonjour_catalog_def)
  have other: "strip (bonjour_catalog ! 4) \<noteq> msgstr_empty" by (simp add: eval_defs)
  show ?thesis using non_marker_silent [OF len other, of utf8_stdout "[]"] len other by blast
qed




text \<open>
  Claim C7. A run prints an output that depends on the catalog's content and on the
  standard output it is started with, and leaves the file system as it found it: the
  world after the run differs from the world before in the console alone, a second run
  appends the same output again with the same outcome, and any world whose catalog reads
  the same, with the same standard output, gets the same output.
\<close>

theorem run_is_repeatable:
  "\<exists>out u.
     run_script w = Some (w\<lparr>console := console w @ out\<rparr>, u) \<and>
     run_script (w\<lparr>console := console w @ out\<rparr>) =
       Some (w\<lparr>console := console w @ out @ out\<rparr>, u) \<and>
     files (w\<lparr>console := console w @ out\<rparr>) = files w \<and>
     (\<forall>w'. files w' catalog_path = files w catalog_path \<and> stream w' = stream w \<longrightarrow>
        run_script w' = Some (w'\<lparr>console := console w' @ out\<rparr>, u))"
proof -
  obtain r where r: "find_missing (stream w) (files w catalog_path) = Some r"
  proof (cases "files w catalog_path")
    case (Inl e)
    then show ?thesis using that by (simp add: find_missing_def)
  next
    case (Inr ls)
    then show ?thesis using that run_caught [of "stream w" ls] by auto
  qed
  have run: "run_script w' = Some (w'\<lparr>console := console w' @ stdout r\<rparr>, uncaught r)"
    if "files w' catalog_path = files w catalog_path" "stream w' = stream w" for w'
    using that r by (simp add: run_script_def)
  have "run_script w = Some (w\<lparr>console := console w @ stdout r\<rparr>, uncaught r)"
    by (rule run) simp_all
  moreover have "run_script (w\<lparr>console := console w @ stdout r\<rparr>) =
       Some (w\<lparr>console := console w @ stdout r @ stdout r\<rparr>, uncaught r)"
    using run [of "w\<lparr>console := console w @ stdout r\<rparr>"] by simp
  moreover have "files (w\<lparr>console := console w @ stdout r\<rparr>) = files w" by simp
  ultimately show ?thesis using run by blast
qed

theorem run_is_repeatable_witness:
  "\<exists>out. out = [lit ''Line 5: msgstr \"\"'', lit ''  Context: msgid \"Hello\"''] \<and>
     run_script hello_world = Some (hello_world\<lparr>console := out\<rparr>, None) \<and>
     run_script (hello_world\<lparr>console := out\<rparr>) =
       Some (hello_world\<lparr>console := out @ out\<rparr>, None)"
proof -
  have first: "run_script hello_world =
      Some (hello_world\<lparr>console := [lit ''Line 5: msgstr \"\"'',
              lit ''  Context: msgid \"Hello\"'']\<rparr>, None)"
    using utf8_run [of hello_catalog] hello_blocks
    by (simp add: run_script_def hello_world_def)
  from run_is_repeatable [of hello_world] obtain out u where
    a: "run_script hello_world = Some (hello_world\<lparr>console := console hello_world @ out\<rparr>, u)"
    and b: "run_script (hello_world\<lparr>console := console hello_world @ out\<rparr>) =
       Some (hello_world\<lparr>console := console hello_world @ out @ out\<rparr>, u)"
    by blast
  have c: "console hello_world = []" by (simp add: hello_world_def)
  from a first c have "out = [lit ''Line 5: msgstr \"\"'', lit ''  Context: msgid \"Hello\"'']"
    and "u = None"
    by (simp_all add: hello_world_def)
  with a b c show ?thesis by simp
qed

text \<open>
  Claim C8. The scan returns on every input and every standard output. The backward walk
  returns from every start index \<open>j\<close> and prints at most \<open>j + 1\<close> lines, its index going down
  by one per round and stopping below zero; the forward loop runs over one pair per line,
  the indices in increasing order, and returns; and so does the whole script, for a
  catalog that reads and for one that does not.
\<close>

theorem scan_terminates:
  "(\<exists>e out'. context_walk pr lines j out = Some (e, out') \<and>
      length out' \<le> length out + nat (j + 1)) \<and>
   (\<exists>r. scan_loop pr lines (List.enumerate 0 lines) [] = Some r) \<and>
   map fst (List.enumerate 0 lines) = [0..<length lines] \<and>
   map snd (List.enumerate 0 lines) = lines \<and>
   (\<exists>r. find_missing pr rd = Some r)"
proof -
  have "\<exists>r. scan_loop pr lines (List.enumerate 0 lines) [] = Some r"
    using scan_loop_emit [of 0 lines lines pr "[]"] by simp
  moreover have "\<exists>r. find_missing pr rd = Some r"
  proof (cases rd)
    case (Inl e)
    then show ?thesis by (simp add: find_missing_def)
  next
    case (Inr ls)
    then show ?thesis using run_caught [of pr ls] by auto
  qed
  ultimately show ?thesis using context_walk_returns [of pr lines j out] by simp
qed

text \<open>
  Claim C9. No list access of the scan raises: an exception pending after the forward loop
  is one that \<^verbatim>\<open>print\<close> raised, never an \<^verbatim>\<open>IndexError\<close>, and with a standard output that
  writes every string none is pending. At every index \<open>i\<close> of the list the header check
  returns a boolean, decided by the line at \<open>i - 1\<close> only when \<open>0 < i\<close>, and the same holds
  of the backward walk from \<open>i - 1\<close>. At index 0 the header check is false and the walk,
  started at \<open>-1\<close>, prints nothing; so for an Entry Marker on the first line the loop body
  prints the location line and no context line, and when that \<^verbatim>\<open>print\<close> is written the
  output of the run starts with it and goes on with nothing, with a location line, or
  with the description of an exception raised by a later \<^verbatim>\<open>print\<close>. The witness is a
  catalog whose last line, which \<^verbatim>\<open>lines[-1]\<close> would read, is \<^verbatim>\<open>msgid ""\<close>.
\<close>

theorem accesses_in_bounds:
  "(\<exists>e out'. scan_loop pr lines (List.enumerate 0 lines) [] = Some (e, out') \<and>
      (\<forall>x. e = Some x \<longrightarrow> exn_cls x \<noteq> IndexError \<and> (\<exists>err. x = raised err))) \<and>
   ((\<forall>h s. pr h s = None) \<longrightarrow>
      (\<exists>out'. scan_loop pr lines (List.enumerate 0 lines) [] = Some (None, out'))) \<and>
   (i < length lines \<longrightarrow>
      is_header lines i = Inr (0 < i \<and> strip (lines ! (i - 1)) = msgid_empty) \<and>
      (\<exists>e out'. context_walk pr lines (int i - 1) out = Some (e, out') \<and>
         (\<forall>x. e = Some x \<longrightarrow> exn_cls x \<noteq> IndexError \<and> (\<exists>err. x = raised err))) \<and>
      ((\<forall>h s. pr h s = None) \<longrightarrow>
         (\<exists>out'. context_walk pr lines (int i - 1) out = Some (None, out')))) \<and>
   is_header lines 0 = Inr False \<and>
   context_walk pr lines (- 1) out = Some (None, out) \<and>
   (lines \<noteq> [] \<and> strip (lines ! 0) = msgstr_empty \<longrightarrow>
      loop_body pr lines 0 (lines ! 0) out =
        Some (emit pr out [report_line 0 (strip (lines ! 0))]) \<and>
      (pr out (report_line 0 (strip (lines ! 0))) = None \<longrightarrow>
         loop_body pr lines 0 (lines ! 0) out =
           Some (None, out @ [report_line 0 (strip (lines ! 0))])) \<and>
      (pr [] (report_line 0 (strip (lines ! 0))) = None \<longrightarrow>
         (\<exists>rest. find_missing pr (Inr lines) =
             Some \<lparr>stdout = report_line 0 (strip (lines ! 0)) # rest, uncaught = None\<rparr> \<and>
             (rest = [] \<or> (\<exists>k t. hd rest = report_line k t) \<or>
              (\<exists>err. rest = [exn_str (raised err)])))))"
proof -
  let ?E = "concat (map (spec_block lines) [0..<length lines])"
  have scan_eq: "scan_loop pr lines (List.enumerate 0 lines) [] = Some (emit pr [] ?E)"
    using scan_loop_emit [of 0 lines lines pr "[]"] by simp
  have scan: "\<exists>e out'. scan_loop pr lines (List.enumerate 0 lines) [] = Some (e, out') \<and>
      (\<forall>x. e = Some x \<longrightarrow> exn_cls x \<noteq> IndexError \<and> (\<exists>err. x = raised err))"
  proof (cases "emit pr [] ?E")
    case (Pair e wr)
    with scan_eq emit_pending [OF Pair] show ?thesis by simp
  qed
  have scan_ok: "\<exists>out'. scan_loop pr lines (List.enumerate 0 lines) [] = Some (None, out')"
    if "\<forall>h s. pr h s = None"
    using scan_eq emit_accepting [OF that] by simp
  have guard: "is_header lines i = Inr (0 < i \<and> strip (lines ! (i - 1)) = msgid_empty) \<and>
      (\<exists>e out'. context_walk pr lines (int i - 1) out = Some (e, out') \<and>
         (\<forall>x. e = Some x \<longrightarrow> exn_cls x \<noteq> IndexError \<and> (\<exists>err. x = raised err))) \<and>
      ((\<forall>h s. pr h s = None) \<longrightarrow>
         (\<exists>out'. context_walk pr lines (int i - 1) out = Some (None, out')))"
    if lt: "i < length lines"
  proof -
    have le: "i \<le> length lines" using lt by simp
    have walk: "context_walk pr lines (int i - 1) out = Some (emit pr out (spec_context lines i))"
      by (rule context_walk_emit [OF le])
    have "\<exists>e out'. context_walk pr lines (int i - 1) out = Some (e, out') \<and>
         (\<forall>x. e = Some x \<longrightarrow> exn_cls x \<noteq> IndexError \<and> (\<exists>err. x = raised err))"
    proof (cases "emit pr out (spec_context lines i)")
      case (Pair e wr)
      with walk emit_pending [OF Pair] show ?thesis by simp
    qed
    moreover have "(\<forall>h s. pr h s = None) \<longrightarrow>
         (\<exists>out'. context_walk pr lines (int i - 1) out = Some (None, out'))"
      using walk emit_accepting [of pr out "spec_context lines i"] by simp
    ultimately show ?thesis using is_header_spec [OF lt] by simp
  qed
  have hdr0: "is_header lines 0 = Inr False" by (simp add: is_header_def)
  have walk0: "context_walk pr lines (- 1) out = Some (None, out)"
    by (subst context_walk.simps) simp
  have first: "loop_body pr lines 0 (lines ! 0) out =
        Some (emit pr out [report_line 0 (strip (lines ! 0))]) \<and>
      (pr out (report_line 0 (strip (lines ! 0))) = None \<longrightarrow>
         loop_body pr lines 0 (lines ! 0) out =
           Some (None, out @ [report_line 0 (strip (lines ! 0))])) \<and>
      (pr [] (report_line 0 (strip (lines ! 0))) = None \<longrightarrow>
         (\<exists>rest. find_missing pr (Inr lines) =
             Some \<lparr>stdout = report_line 0 (strip (lines ! 0)) # rest, uncaught = None\<rparr> \<and>
             (rest = [] \<or> (\<exists>k t. hd rest = report_line k t) \<or>
              (\<exists>err. rest = [exn_str (raised err)]))))"
    if ne: "lines \<noteq> []" and marker: "strip (lines ! 0) = msgstr_empty"
  proof -
    define r where "r = report_line 0 (strip (lines ! 0))"
    let ?E' = "concat (map (spec_block lines) [Suc 0..<length lines])"
    have lt: "0 < length lines" using ne by simp
    have block: "spec_block lines 0 = [r]"
      using marker by (simp add: spec_block_model spec_context_0 r_def)
    have body: "loop_body pr lines 0 (lines ! 0) out = Some (emit pr out [r])"
      using loop_body_emit [OF lt, of pr out] block by simp
    have body_ok: "loop_body pr lines 0 (lines ! 0) out = Some (None, out @ [r])"
      if "pr out r = None"
      using body that by simp
    have "[0..<length lines] = 0 # [Suc 0..<length lines]"
      using lt by (rule upt_conv_Cons)
    then have E: "?E = r # ?E'" using block by simp
    have whole: "\<exists>rest. find_missing pr (Inr lines) =
             Some \<lparr>stdout = r # rest, uncaught = None\<rparr> \<and>
             (rest = [] \<or> (\<exists>k t. hd rest = report_line k t) \<or>
              (\<exists>err. rest = [exn_str (raised err)]))"
      if ok: "pr [] r = None"
    proof (cases "emit pr [r] ?E'")
      case (Pair e wr)
      obtain m where wr: "wr = [r] @ take m ?E'"
        using emit_take [of ?E' pr "[r]"] Pair by auto
      have em: "emit pr [] ?E = (e, wr)" unfolding E using ok Pair by simp
      have run: "find_missing pr (Inr lines) =
          Some (case (e, wr) of
                  (None, out) \<Rightarrow> \<lparr>stdout = out, uncaught = None\<rparr>
                | (Some x, out) \<Rightarrow> \<lparr>stdout = out @ [exn_str x], uncaught = None\<rparr>)"
        using find_missing_emit [of pr lines] em by simp
      have hd': "?E' = [] \<or> (\<exists>k t. hd ?E' = report_line k t)" by (rule blocks_head)
      show ?thesis
      proof (cases e)
        case None
        then have "find_missing pr (Inr lines) =
            Some \<lparr>stdout = r # take m ?E', uncaught = None\<rparr>"
          using run wr by simp
        moreover have "take m ?E' = [] \<or> (\<exists>k t. hd (take m ?E') = report_line k t)"
          using rest_cases [OF hd', of m "[]"] by simp
        ultimately show ?thesis by blast
      next
        case (Some x)
        then obtain err where x: "x = raised err" using Pair emit_raised by blast
        have "find_missing pr (Inr lines) =
            Some \<lparr>stdout = r # (take m ?E' @ [exn_str (raised err)]), uncaught = None\<rparr>"
          using run wr Some x by simp
        moreover have "take m ?E' @ [exn_str (raised err)] = [exn_str (raised err)] \<or>
            (\<exists>k t. hd (take m ?E' @ [exn_str (raised err)]) = report_line k t)"
          using rest_cases [OF hd', of m "[exn_str (raised err)]"] by auto
        ultimately show ?thesis by blast
      qed
    qed
    show ?thesis unfolding r_def [symmetric] using body body_ok whole by blast
  qed
  from scan scan_ok guard hdr0 walk0 first show ?thesis by blast
qed

theorem accesses_in_bounds_witness:
  "trailing_msgid_catalog \<noteq> [] \<and> strip (trailing_msgid_catalog ! 0) = msgstr_empty \<and>
   getitem trailing_msgid_catalog (- 1) = Inr (lit ''msgid \"\"'' @ [10]) \<and>
   loop_body utf8_stdout trailing_msgid_catalog 0 (trailing_msgid_catalog ! 0) [] =
     Some (None, [lit ''Line 1: msgstr \"\"''])"
proof -
  have ne: "trailing_msgid_catalog \<noteq> []" by (simp add: trailing_msgid_catalog_def)
  have marker: "strip (trailing_msgid_catalog ! 0) = msgstr_empty"
    by (simp add: eval_defs)
  have last: "getitem trailing_msgid_catalog (- 1) = Inr (lit ''msgid \"\"'' @ [10])"
    by (simp add: getitem_def trailing_msgid_catalog_def)
  have ok: "utf8_stdout [] (report_line 0 (strip (trailing_msgid_catalog ! 0))) = None"
    by (simp add: utf8_stdout_def)
  have loc: "report_line 0 (strip (trailing_msgid_catalog ! 0)) = lit ''Line 1: msgstr \"\"''"
    by (simp add: report_line_def eval_defs)
  from accesses_in_bounds [of utf8_stdout trailing_msgid_catalog 0 "[]"] ne marker ok
  have "loop_body utf8_stdout trailing_msgid_catalog 0 (trailing_msgid_catalog ! 0) [] =
      Some (None, [] @ [report_line 0 (strip (trailing_msgid_catalog ! 0))])"
    by blast
  then show ?thesis using ne marker last unfolding loc by simp
qed




end
